theory Spec2Isabelle
  imports Complex_Main
begin

section \<open>Configuration (dynamic-scaler/config.py)\<close>

text \<open>
  The pydantic models of \<^verbatim>\<open>config.py\<close> as records. Python integers are
  unbounded, hence \<^typ>\<open>int\<close>. The validators run when a model is
  constructed; the functions below are stated for any field values, and the
  validated ranges appear as hypotheses only where a theorem needs them.
\<close>

record RedisConfig =
  host :: string
  port :: int
  password :: "string option"

record QueueConfig =
  name_prefix :: string
  name :: string

record ScalingConfig =
  min_replicas :: int
  max_replicas :: int
  scale_up_threshold :: int
  scale_down_threshold :: int

record DockerConfig =
  compose_file :: string
  project_name :: string
  service_name :: string

record TimingConfig =
  polling_interval :: int
  cooldown_period :: int

record Config =
  redis :: RedisConfig
  queue :: QueueConfig
  scaling :: ScalingConfig
  docker :: DockerConfig
  timing :: TimingConfig

section \<open>Formatting integers\<close>

text \<open>
  The f-strings of the source render integers with Python's \<^verbatim>\<open>str\<close>:
  decimal digits, most significant first, with a leading minus sign for a
  negative number. A Python that limits the conversion between integers and
  strings (to 4300 digits) limits it in both directions, so every integer
  that \<^verbatim>\<open>Config.from_env\<close> could read is rendered.
\<close>

definition digit_char :: "nat \<Rightarrow> char" where
  "digit_char d =
     (if d = 0 then CHR ''0'' else if d = 1 then CHR ''1'' else if d = 2 then CHR ''2''
      else if d = 3 then CHR ''3'' else if d = 4 then CHR ''4'' else if d = 5 then CHR ''5''
      else if d = 6 then CHR ''6'' else if d = 7 then CHR ''7'' else if d = 8 then CHR ''8''
      else CHR ''9'')"

fun str_nat :: "nat \<Rightarrow> string" where
  "str_nat n = (if n < 10 then [digit_char n] else str_nat (n div 10) @ [digit_char (n mod 10)])"

declare str_nat.simps [simp del]

definition str_int :: "int \<Rightarrow> string" where
  "str_int i = (if i < 0 then CHR ''-'' # str_nat (nat (- i)) else str_nat (nat i))"

text \<open>\<^verbatim>\<open>QueueConfig.get_queue_key\<close>: \<^verbatim>\<open>f"{self.name_prefix}:{self.name}:{state}"\<close>.\<close>

definition get_queue_key :: "QueueConfig \<Rightarrow> string \<Rightarrow> string" where
  "get_queue_key qc state = name_prefix qc @ '':'' @ name qc @ '':'' @ state"

section \<open>The scaling decision (scaler.py, DynamicScaler)\<close>

definition up_reason :: "Config \<Rightarrow> int \<Rightarrow> string" where
  "up_reason cfg queue_length =
     ''Queue length '' @ str_int queue_length @ '' > threshold '' @
     str_int (scale_up_threshold (scaling cfg))"

definition down_reason :: "Config \<Rightarrow> int \<Rightarrow> string" where
  "down_reason cfg queue_length =
     ''Queue length '' @ str_int queue_length @ '' <= threshold '' @
     str_int (scale_down_threshold (scaling cfg))"

definition make_scaling_decision :: "Config \<Rightarrow> int \<Rightarrow> int \<Rightarrow> (int \<times> string) option" where
  "make_scaling_decision cfg queue_length current_replicas =
     (if queue_length > scale_up_threshold (scaling cfg)
         \<and> current_replicas < max_replicas (scaling cfg)
      then Some (min (current_replicas + 1) (max_replicas (scaling cfg)),
                 up_reason cfg queue_length)
      else if queue_length \<le> scale_down_threshold (scaling cfg)
         \<and> current_replicas > min_replicas (scaling cfg)
      then Some (max (current_replicas - 1) (min_replicas (scaling cfg)),
                 down_reason cfg queue_length)
      else None)"

section \<open>The outside world\<close>

text \<open>
  The service talks to a Redis server, to the Docker daemon and to the
  \<^verbatim>\<open>docker compose\<close> command. None of them is code of this repository,
  so one loop iteration is run against a \<open>World\<close>: the answers the outside
  gives to the calls of that iteration. A call either returns or raises, and
  a raise is a value \<open>Inl e\<close>. The exception classes are those the handlers
  of the source tell apart; \<open>ConnectionError\<close>, \<open>ResponseError\<close> and
  \<open>TimeoutError\<close> are the classes of the redis package (siblings below
  \<^verbatim>\<open>redis.RedisError\<close>), \<open>OtherException\<close> is any further subclass of
  \<^verbatim>\<open>Exception\<close>. \<^verbatim>\<open>start\<close> installs \<^verbatim>\<open>_signal_handler\<close> for SIGINT and
  SIGTERM, so a signal is the flag \<open>signal\<close> and no \<^verbatim>\<open>KeyboardInterrupt\<close>
  is raised.

  \<^verbatim>\<open>time.time()\<close> is a float in the source; it is a \<^typ>\<open>real\<close> here.
  The loop compares the float \<^verbatim>\<open>current_time - self.last_scale_time\<close> with
  the integer \<^verbatim>\<open>cooldown_period\<close>, which Python does exactly, without
  converting the integer. \<^verbatim>\<open>last_scale_time\<close> is 0.0 or an earlier
  \<^verbatim>\<open>time.time()\<close>, within a factor of two of the current one, and for
  such operands the float subtraction is exact, so the subtraction here is
  the one of the reals.
\<close>

datatype exn =
    ConnectionError | ResponseError | TimeoutError
  | CalledProcessError | TimeoutExpired | FileNotFoundError
  | OverflowError | ValueError
  | OtherException

record World =
  now :: real
  signal :: bool
  ping :: "exn option"
  redis_new :: "exn option"
  connect_ping :: "exn option"
  llen :: "string \<Rightarrow> exn + int option"
  containers_list :: "exn + string list"
  subprocess_run :: "string list \<Rightarrow> exn + string \<times> string"
  sleep_error :: "int \<Rightarrow> exn option"

text \<open>
  What an iteration does to the outside is recorded as a list of events, in
  the order of the calls; \<open>Sleep d\<close> is a \<^verbatim>\<open>time.sleep(d)\<close> that returned. Of
  the log lines, the three of \<^verbatim>\<open>_execute_scaling\<close> are recorded, as
  \<open>Log\<close> with the message: they say that an actuation was attempted and how
  it ended.
\<close>

datatype event =
    Ping | RedisNew | LLen string | ContainersList
  | SubprocessRun "string list" | Sleep int | Close | Log string

text \<open>
  \<^verbatim>\<open>time.sleep(d)\<close> with an integer \<open>d\<close>: a negative \<open>d\<close> raises
  \<^verbatim>\<open>ValueError\<close>; a \<open>d\<close> of 9223372037 or more raises \<^verbatim>\<open>OverflowError\<close>,
  since the duration in nanoseconds does not fit in 64 bits; for a \<open>d\<close> in
  between the platform decides (a duration that its clock cannot represent
  is an \<^verbatim>\<open>OSError\<close>), which is the answer \<open>sleep_error\<close> of the world, and
  \<open>None\<close> there is the sleep returning.
\<close>

definition time_sleep :: "World \<Rightarrow> int \<Rightarrow> exn + event" where
  "time_sleep w d =
     (if d < 0 then Inl ValueError
      else if d \<ge> 9223372037 then Inl OverflowError
      else case sleep_error w d of
             Some e \<Rightarrow> Inl e
           | None \<Rightarrow> Inr (Sleep d))"

text \<open>
  An arithmetic operation of an integer with a float converts the integer to
  a float first, and raises \<^verbatim>\<open>OverflowError\<close> when the integer rounds to a
  magnitude beyond the largest float, \<open>2 ^ 1024 - 2 ^ 971\<close>.
\<close>

definition int_to_float_overflows :: "int \<Rightarrow> bool" where
  "int_to_float_overflows n = (\<bar>n\<bar> \<ge> 2 ^ 1024 - 2 ^ 970)"

text \<open>
  The mutable fields: \<^verbatim>\<open>running\<close> and \<^verbatim>\<open>last_scale_time\<close> of
  \<^verbatim>\<open>DynamicScaler\<close>, the local \<^verbatim>\<open>consecutive_errors\<close> of
  \<^verbatim>\<open>_scaling_loop\<close>, and whether \<^verbatim>\<open>_client\<close> of \<^verbatim>\<open>RedisClient\<close> and of
  \<^verbatim>\<open>DockerManager\<close> is set (not \<^verbatim>\<open>None\<close>).
\<close>

record Scaler =
  running :: bool
  last_scale_time :: real
  consecutive_errors :: int
  redis_client :: bool
  docker_client :: bool

section \<open>RedisClient (dynamic-scaler/redis_client.py)\<close>

text \<open>
  \<^verbatim>\<open>connect\<close>: the client object is assigned before the ping, so it stays
  set when the ping fails; every exception gives \<^verbatim>\<open>False\<close>.
\<close>

definition connect :: "World \<Rightarrow> Scaler \<Rightarrow> event list \<times> Scaler \<times> bool" where
  "connect w s =
     (case redis_new w of
        Some e \<Rightarrow> ([RedisNew], s, False)
      | None \<Rightarrow>
          (let s' = s\<lparr>redis_client := True\<rparr> in
           case connect_ping w of
             None \<Rightarrow> ([RedisNew, Ping], s', True)
           | Some e \<Rightarrow>
               (if e = ConnectionError then ([RedisNew, Ping], s', False)
                else ([RedisNew, Ping], s', False))))"

definition disconnect :: "Scaler \<Rightarrow> event list \<times> Scaler" where
  "disconnect s =
     (if redis_client s then ([Close], s\<lparr>redis_client := False\<rparr>) else ([], s))"

text \<open>
  \<^verbatim>\<open>is_connected\<close>: only \<^verbatim>\<open>redis.ConnectionError\<close> is caught; any other
  exception of the ping leaves the function.
\<close>

definition is_connected :: "World \<Rightarrow> Scaler \<Rightarrow> event list \<times> (exn + bool)" where
  "is_connected w s =
     (if \<not> redis_client s then ([], Inr False)
      else case ping w of
             None \<Rightarrow> ([Ping], Inr True)
           | Some e \<Rightarrow>
               (if e = ConnectionError then ([Ping], Inr False)
                else ([Ping], Inl e)))"

text \<open>
  The \<^verbatim>\<open>for\<close> loop of \<^verbatim>\<open>get_queue_length\<close> over the key patterns: the
  first length that is not \<^verbatim>\<open>None\<close> and not negative is returned; an
  exception, \<^verbatim>\<open>None\<close> or a negative length moves on to the next key.
  \<open>None\<close> is the loop running to its end.
\<close>

fun try_key_patterns :: "(string \<Rightarrow> exn + int option) \<Rightarrow> string list \<Rightarrow> event list \<times> int option" where
  "try_key_patterns f [] = ([], None)"
| "try_key_patterns f (key_pattern # rest) =
     (case f key_pattern of
        Inr (Some len) \<Rightarrow>
          (if len \<ge> 0 then ([LLen key_pattern], Some len)
           else (case try_key_patterns f rest of (ev, r) \<Rightarrow> (LLen key_pattern # ev, r)))
      | Inr None \<Rightarrow>
          (case try_key_patterns f rest of (ev, r) \<Rightarrow> (LLen key_pattern # ev, r))
      | Inl e \<Rightarrow>
          (case try_key_patterns f rest of (ev, r) \<Rightarrow> (LLen key_pattern # ev, r)))"

definition key_patterns :: "QueueConfig \<Rightarrow> string list" where
  "key_patterns qc =
     [get_queue_key qc ''wait'',
      get_queue_key qc ''waiting'',
      name_prefix qc @ '':'' @ name qc]"

definition get_queue_length :: "QueueConfig \<Rightarrow> World \<Rightarrow> Scaler \<Rightarrow> event list \<times> int" where
  "get_queue_length qc w s =
     (if \<not> redis_client s then ([], 0)
      else case try_key_patterns (llen w) (key_patterns qc) of
             (ev, Some len) \<Rightarrow> (ev, len)
           | (ev, None) \<Rightarrow> (ev, 0))"

text \<open>
  A Redis server as a store of keys. The command LLEN of Redis answers 0 for
  a key that does not exist (it is read as an empty list), the number of
  elements for a list, and a WRONGTYPE error, which the redis package raises
  as \<^verbatim>\<open>ResponseError\<close>, for a value that is not a list.
\<close>

datatype redis_value = RList "string list" | RString string

type_synonym redis_store = "string \<rightharpoonup> redis_value"

definition redis_llen :: "redis_store \<Rightarrow> string \<Rightarrow> exn + int option" where
  "redis_llen store key =
     (case store key of
        None \<Rightarrow> Inr (Some 0)
      | Some (RList xs) \<Rightarrow> Inr (Some (int (length xs)))
      | Some (RString v) \<Rightarrow> Inl ResponseError)"

section \<open>DockerManager (dynamic-scaler/docker_manager.py)\<close>

text \<open>
  \<^verbatim>\<open>get_current_replicas\<close>: the listed containers are given by their
  status; those with status \<^verbatim>\<open>running\<close> are counted, and any exception
  gives 0.
\<close>

definition get_current_replicas :: "World \<Rightarrow> Scaler \<Rightarrow> event list \<times> int" where
  "get_current_replicas w s =
     (if \<not> docker_client s then ([], 0)
      else case containers_list w of
             Inr containers \<Rightarrow>
               ([ContainersList], int (length (filter (\<lambda>status. status = ''running'') containers)))
           | Inl e \<Rightarrow> ([ContainersList], 0))"

definition scale_command :: "DockerConfig \<Rightarrow> int \<Rightarrow> string list" where
  "scale_command dc target_replicas =
     [''docker'', ''compose'', ''-f'', compose_file dc,
      ''--project-name'', project_name dc,
      ''--project-directory'', ''/app'',
      ''up'', ''-d'', ''--no-deps'', ''--scale'',
      service_name dc @ ''='' @ str_int target_replicas,
      service_name dc]"

definition scale_service :: "DockerConfig \<Rightarrow> World \<Rightarrow> int \<Rightarrow> event list \<times> bool" where
  "scale_service dc w target_replicas =
     (if target_replicas < 0 then ([], False)
      else let command = scale_command dc target_replicas in
        case subprocess_run w command of
          Inr result \<Rightarrow> ([SubprocessRun command], True)
        | Inl e \<Rightarrow>
            (if e = CalledProcessError then ([SubprocessRun command], False)
             else if e = TimeoutExpired then ([SubprocessRun command], False)
             else if e = FileNotFoundError then ([SubprocessRun command], False)
             else ([SubprocessRun command], False)))"

section \<open>The control loop (dynamic-scaler/scaler.py)\<close>

definition execute_scaling :: "Config \<Rightarrow> World \<Rightarrow> int \<Rightarrow> string \<Rightarrow> real \<Rightarrow> event list \<times> bool" where
  "execute_scaling cfg w target_replicas reason current_time =
     (case scale_service (docker cfg) w target_replicas of
        (ev, success) \<Rightarrow>
          ([Log ''Scaling decision made''] @ ev @
           [Log (if success then ''Scaling completed successfully'' else ''Scaling failed'')],
           success))"

text \<open>
  \<^verbatim>\<open>_handle_consecutive_errors\<close>. Its sleep is of \<open>min (n * 2) 60\<close> seconds,
  at most 60, and the loop calls it with counts from 1, the counter starting
  at 0 and only going up by one or back to 0: a sleep of 2 to 60 seconds,
  which returns.
\<close>

definition handle_consecutive_errors :: "Scaler \<Rightarrow> int \<Rightarrow> int \<Rightarrow> event list \<times> Scaler" where
  "handle_consecutive_errors s n max_errors =
     (if n \<ge> max_errors then ([], s\<lparr>running := False\<rparr>)
      else let backoff_time = min (n * 2) 60 in ([Sleep backoff_time], s))"

definition max_consecutive_errors :: int where
  "max_consecutive_errors = 5"

text \<open>
  An error in the loop: the counter goes up by one and
  \<^verbatim>\<open>_handle_consecutive_errors\<close> runs (lines 134 to 138 and 170 to 178).
\<close>

definition count_error :: "Scaler \<Rightarrow> event list \<times> Scaler" where
  "count_error s =
     (let n = consecutive_errors s + 1 in
      handle_consecutive_errors (s\<lparr>consecutive_errors := n\<rparr>) n max_consecutive_errors)"

text \<open>
  Lines 162 to 164: the counter is reset, then the loop sleeps one polling
  interval. The third component is the exception that the sleep raised, if
  it did: the counter is reset by then.
\<close>

definition end_of_cycle :: "Config \<Rightarrow> World \<Rightarrow> event list \<Rightarrow> Scaler \<Rightarrow> event list \<times> Scaler \<times> exn option" where
  "end_of_cycle cfg w ev s =
     (case time_sleep w (polling_interval (timing cfg)) of
        Inr slept \<Rightarrow> (ev @ [slept], s\<lparr>consecutive_errors := 0\<rparr>, None)
      | Inl e \<Rightarrow> (ev, s\<lparr>consecutive_errors := 0\<rparr>, Some e))"

text \<open>
  Lines 140 to 164 of \<^verbatim>\<open>_scaling_loop\<close>: the metrics, the decision, the
  actuation, and the end of the cycle. The calls before the sleep let no
  exception out.
\<close>

definition measure_and_scale :: "Config \<Rightarrow> World \<Rightarrow> Scaler \<Rightarrow> real \<Rightarrow> event list \<times> Scaler \<times> exn option" where
  "measure_and_scale cfg w s current_time =
     (case get_queue_length (queue cfg) w s of (ev_q, queue_length) \<Rightarrow>
      case get_current_replicas w s of (ev_r, current_replicas) \<Rightarrow>
      case (case make_scaling_decision cfg queue_length current_replicas of
              Some (target_replicas, reason) \<Rightarrow>
                (case execute_scaling cfg w target_replicas reason current_time of
                   (ev_s, success) \<Rightarrow>
                     (ev_s, if success then s\<lparr>last_scale_time := current_time\<rparr> else s))
            | None \<Rightarrow> ([], s)) of (ev_s, s') \<Rightarrow>
      end_of_cycle cfg w (ev_q @ ev_r @ ev_s) s')"

text \<open>
  The \<^verbatim>\<open>try\<close> block of the loop, lines 116 to 164. The third component is
  the exception that left the block, if one did, with the events and the
  state up to there. In the cooldown, line 121 subtracts the float
  \<^verbatim>\<open>time_since_last_scale\<close> from the integer \<^verbatim>\<open>cooldown_period\<close>, which
  converts the integer, and line 127 sleeps. Once the integer is converted,
  the difference with an elapsed time of the magnitude of \<^verbatim>\<open>time.time()\<close>
  is a finite float, which \<^verbatim>\<open>int\<close> accepts.
\<close>

definition try_block :: "Config \<Rightarrow> World \<Rightarrow> Scaler \<Rightarrow> event list \<times> Scaler \<times> exn option" where
  "try_block cfg w s =
     (let current_time = now w;
          time_since_last_scale = current_time - last_scale_time s
      in
      if time_since_last_scale < real_of_int (cooldown_period (timing cfg))
      then
        (if int_to_float_overflows (cooldown_period (timing cfg))
         then ([], s, Some OverflowError)
         else case time_sleep w (polling_interval (timing cfg)) of
                Inr slept \<Rightarrow> ([slept], s, None)
              | Inl e \<Rightarrow> ([], s, Some e))
      else
        case is_connected w s of
          (ev_c, Inl e) \<Rightarrow> (ev_c, s, Some e)
        | (ev_c, Inr True) \<Rightarrow>
            (case measure_and_scale cfg w s current_time of
               (ev_m, s', raised) \<Rightarrow> (ev_c @ ev_m, s', raised))
        | (ev_c, Inr False) \<Rightarrow>
            (case connect w s of
               (ev_n, s1, False) \<Rightarrow>
                 (case count_error s1 of (ev_h, s') \<Rightarrow> (ev_c @ ev_n @ ev_h, s', None))
             | (ev_n, s1, True) \<Rightarrow>
                 (case measure_and_scale cfg w s1 current_time of
                    (ev_m, s', raised) \<Rightarrow> (ev_c @ ev_n @ ev_m, s', raised))))"

text \<open>
  The \<^verbatim>\<open>except Exception\<close> clause, lines 169 to 178: an exception that left
  the \<^verbatim>\<open>try\<close> block is counted as an error.
\<close>

definition except_clause :: "event list \<times> Scaler \<times> exn option \<Rightarrow> event list \<times> Scaler" where
  "except_clause r =
     (case r of
        (ev, s, None) \<Rightarrow> (ev, s)
      | (ev, s, Some e) \<Rightarrow> (case count_error s of (ev_h, s') \<Rightarrow> (ev @ ev_h, s')))"

text \<open>The body of the \<^verbatim>\<open>while\<close> loop, with its \<^verbatim>\<open>try\<close> and \<^verbatim>\<open>except\<close>.\<close>

definition loop_body :: "Config \<Rightarrow> World \<Rightarrow> Scaler \<Rightarrow> event list \<times> Scaler" where
  "loop_body cfg w s = except_clause (try_block cfg w s)"

text \<open>
  One iteration: the body, and the signal handler, which sets
  \<^verbatim>\<open>running\<close> to \<^verbatim>\<open>False\<close> when a signal arrived during the iteration.
  Nothing in the loop sets \<^verbatim>\<open>running\<close> to \<^verbatim>\<open>True\<close>, so the moment of the
  signal inside the iteration makes no difference to the next loop test.
\<close>

definition iteration :: "Config \<Rightarrow> World \<Rightarrow> Scaler \<Rightarrow> event list \<times> Scaler" where
  "iteration cfg w s =
     (case loop_body cfg w s of
        (ev, s') \<Rightarrow> (ev, if signal w then s'\<lparr>running := False\<rparr> else s'))"

definition shutdown :: "Scaler \<Rightarrow> event list \<times> Scaler" where
  "shutdown s = disconnect (s\<lparr>running := False\<rparr>)"

text \<open>
  The \<^verbatim>\<open>while self.running\<close> loop, driven by one world for each iteration.
  The loop of the source may run forever; here it runs as long as worlds are
  left, and \<open>None\<close> says that they ran out while \<^verbatim>\<open>running\<close> was still
  set. \<open>Some\<close> is the loop left and \<^verbatim>\<open>_shutdown\<close> done.
\<close>

fun while_running :: "Config \<Rightarrow> World list \<Rightarrow> Scaler \<Rightarrow> (event list \<times> Scaler) option" where
  "while_running cfg [] s = (if running s then None else Some (shutdown s))"
| "while_running cfg (w # ws) s =
     (if running s then
        (case iteration cfg w s of
           (ev, s') \<Rightarrow>
             (case while_running cfg ws s' of
                None \<Rightarrow> None
              | Some (ev', s'') \<Rightarrow> Some (ev @ ev', s'')))
      else Some (shutdown s))"

definition scaling_loop :: "Config \<Rightarrow> World list \<Rightarrow> Scaler \<Rightarrow> (event list \<times> Scaler) option" where
  "scaling_loop cfg ws s = while_running cfg ws (s\<lparr>consecutive_errors := 0\<rparr>)"

text \<open>The durations of the sleeps among the events of a run, in order.\<close>

fun sleeps :: "event list \<Rightarrow> int list" where
  "sleeps [] = []"
| "sleeps (Sleep d # evs) = d # sleeps evs"
| "sleeps (e # evs) = sleeps evs"

section \<open>Concrete inputs\<close>

text \<open>
  The configuration that \<^verbatim>\<open>Config.from_env\<close> builds from an environment that
  sets only the project name, a queue with the identity \<^verbatim>\<open>myapp:jobs\<close>, a
  scaler that is running and connected, and worlds to run them in.
\<close>

definition default_config :: Config where
  "default_config =
     \<lparr>redis = \<lparr>host = ''redis'', port = 6379, password = None\<rparr>,
      queue = \<lparr>name_prefix = ''bull'', name = ''jobs''\<rparr>,
      scaling = \<lparr>min_replicas = 1, max_replicas = 5,
                 scale_up_threshold = 5, scale_down_threshold = 0\<rparr>,
      docker = \<lparr>compose_file = ''/app/docker-compose.yml'', project_name = ''n8n'',
                service_name = ''n8n-worker''\<rparr>,
      timing = \<lparr>polling_interval = 30, cooldown_period = 120\<rparr>\<rparr>"

definition myapp_jobs :: QueueConfig where
  "myapp_jobs = \<lparr>name_prefix = ''myapp'', name = ''jobs''\<rparr>"

definition connected_scaler :: Scaler where
  "connected_scaler =
     \<lparr>running = True, last_scale_time = 0, consecutive_errors = 0,
      redis_client = True, docker_client = True\<rparr>"

text \<open>
  A world at time 1000 with six jobs waiting under \<^verbatim>\<open>bull:jobs:wait\<close>, two
  running workers, a \<^verbatim>\<open>docker compose\<close> that does what it is asked, and a
  clock that accepts every sleep.
\<close>

definition busy_world :: World where
  "busy_world =
     \<lparr>now = 1000, signal = False, ping = None, redis_new = None, connect_ping = None,
      llen = redis_llen [''bull:jobs:wait'' \<mapsto> RList (replicate 6 ''job'')],
      containers_list = Inr [''running'', ''running''],
      subprocess_run = (\<lambda>command. Inr ([], [])),
      sleep_error = (\<lambda>d. None)\<rparr>"

text \<open>The same world with a \<^verbatim>\<open>docker compose\<close> that exits with an error.\<close>

definition compose_failing_world :: World where
  "compose_failing_world = busy_world\<lparr>subprocess_run := (\<lambda>command. Inl CalledProcessError)\<rparr>"

text \<open>The same world 60 seconds after a scaling at time 940.\<close>

definition recently_scaled :: Scaler where
  "recently_scaled = connected_scaler\<lparr>last_scale_time := 940\<rparr>"

text \<open>A world whose Redis server refuses every connection.\<close>

definition redis_down_world :: World where
  "redis_down_world =
     busy_world\<lparr>ping := Some ConnectionError, connect_ping := Some ConnectionError\<rparr>"

text \<open>A world whose Redis server does not answer the ping within the socket timeout.\<close>

definition redis_timeout_world :: World where
  "redis_timeout_world = busy_world\<lparr>ping := Some TimeoutError\<rparr>"

text \<open>A store whose only key is \<^verbatim>\<open>myapp:jobs:waiting\<close>, a list of seven jobs.\<close>

definition waiting_only_store :: redis_store where
  "waiting_only_store = [''myapp:jobs:waiting'' \<mapsto> RList (replicate 7 ''job'')]"

definition waiting_only_world :: World where
  "waiting_only_world = busy_world\<lparr>llen := redis_llen waiting_only_store\<rparr>"

section \<open>Properties of the decision\<close>

lemma reasons_differ: "up_reason cfg q \<noteq> down_reason cfg' q"
  by (simp add: up_reason_def down_reason_def)

lemma str_int_examples:
  "str_int 3 = ''3''" "str_int 5 = ''5''" "str_int 6 = ''6''"
  by (simp_all add: str_int_def str_nat.simps digit_char_def)

text \<open>
  Claim C3. For every queue length, every replica count and every
  configuration, the decision is the target
  \<open>min (current + 1) max_replicas\<close> with the scale-up reason exactly when
  the queue length is above the scale-up threshold and the replica count
  below the maximum; it is the target \<open>max (current - 1) min_replicas\<close> with
  the scale-down reason exactly when the scale-up case does not apply, the
  queue length is at most the scale-down threshold and the replica count
  above the minimum; and it is no decision exactly when neither case
  applies. The statement holds for negative queue lengths too.
\<close>

theorem decision_cases:
  "(make_scaling_decision cfg q cur
      = Some (min (cur + 1) (max_replicas (scaling cfg)), up_reason cfg q))
     = (q > scale_up_threshold (scaling cfg) \<and> cur < max_replicas (scaling cfg))
   \<and> (make_scaling_decision cfg q cur
      = Some (max (cur - 1) (min_replicas (scaling cfg)), down_reason cfg q))
     = (\<not> (q > scale_up_threshold (scaling cfg) \<and> cur < max_replicas (scaling cfg))
        \<and> q \<le> scale_down_threshold (scaling cfg) \<and> cur > min_replicas (scaling cfg))
   \<and> (make_scaling_decision cfg q cur = None)
     = (\<not> (q > scale_up_threshold (scaling cfg) \<and> cur < max_replicas (scaling cfg))
        \<and> \<not> (q \<le> scale_down_threshold (scaling cfg) \<and> cur > min_replicas (scaling cfg)))"
  using reasons_differ [of cfg q cfg]
  by (auto simp: make_scaling_decision_def)

text \<open>
  Claim C8. Every decision is either a scale-up, with the scale-up reason and
  a target above the current count and not above \<open>max_replicas\<close>, or a
  scale-down, with the scale-down reason and a target below the current
  count and not below \<open>min_replicas\<close>; this for every queue length, replica
  count and configuration.
\<close>

theorem decision_within_bounds:
  assumes "make_scaling_decision cfg q cur = Some (target, reason)"
  shows "(reason = up_reason cfg q \<and> cur < target \<and> target \<le> max_replicas (scaling cfg))
       \<or> (reason = down_reason cfg q \<and> target < cur \<and> min_replicas (scaling cfg) \<le> target)"
  using assms by (auto simp: make_scaling_decision_def split: if_splits)

theorem decision_within_bounds_witness:
  "make_scaling_decision default_config 6 2 = Some (3, ''Queue length 6 > threshold 5'')
   \<and> (3::int) \<le> max_replicas (scaling default_config)"
  using decision_within_bounds [of default_config 6 2 3 "''Queue length 6 > threshold 5''"]
  by (simp add: make_scaling_decision_def default_config_def up_reason_def str_int_examples)

section \<open>Properties of the actuator\<close>

text \<open>
  Claim C10. For every negative target, \<^verbatim>\<open>scale_service\<close> returns
  \<^verbatim>\<open>False\<close> and nothing happens outside: its list of events is empty, so
  \<^verbatim>\<open>subprocess.run\<close> is not called.
\<close>

theorem negative_target_rejected:
  "target_replicas < 0 \<Longrightarrow> scale_service dc w target_replicas = ([], False)"
  by (simp add: scale_service_def)

theorem negative_target_rejected_witness:
  "(-1::int) < 0 \<and> scale_service (docker default_config) busy_world (-1) = ([], False)"
  using negative_target_rejected [of "-1" "docker default_config" busy_world] by simp

section \<open>The structure of one iteration\<close>

lemma sleeps_append: "sleeps (xs @ ys) = sleeps xs @ sleeps ys"
  by (induction xs rule: sleeps.induct) simp_all

lemma try_key_patterns_events:
  "set (fst (try_key_patterns f ks)) \<subseteq> LLen ` set ks"
  by (induction ks) (auto split: sum.splits option.splits prod.splits)

lemma get_queue_length_events:
  "set (fst (get_queue_length qc w s)) \<subseteq> range LLen"
  using try_key_patterns_events [of "llen w" "key_patterns qc"]
  by (auto simp: get_queue_length_def split: prod.splits option.splits)

lemma get_current_replicas_events:
  "fst (get_current_replicas w s) = [] \<or> fst (get_current_replicas w s) = [ContainersList]"
  by (simp add: get_current_replicas_def split: sum.splits)

lemma scale_service_eq:
  "scale_service dc w t =
     (if t < 0 then ([], False)
      else ([SubprocessRun (scale_command dc t)],
            (case subprocess_run w (scale_command dc t) of Inr r \<Rightarrow> True | Inl e \<Rightarrow> False)))"
  by (simp add: scale_service_def Let_def split: sum.splits)

lemma count_error_eq:
  "count_error s =
     (if consecutive_errors s + 1 \<ge> 5
      then ([], s\<lparr>consecutive_errors := consecutive_errors s + 1, running := False\<rparr>)
      else ([Sleep (min ((consecutive_errors s + 1) * 2) 60)],
            s\<lparr>consecutive_errors := consecutive_errors s + 1\<rparr>))"
  by (simp add: count_error_def handle_consecutive_errors_def max_consecutive_errors_def Let_def)

lemma time_sleep_cases:
  obtains (slept) "time_sleep w d = Inr (Sleep d)"
  | (raised) e where "time_sleep w d = Inl e"
  by (cases "time_sleep w d") (auto simp: time_sleep_def split: if_splits option.splits)

text \<open>
  The end of a cycle with the \<^verbatim>\<open>except\<close> clause after it: either the sleep
  returns and the counter is 0, or it raises, which is counted as the first
  error and followed by a backoff of 2 seconds.
\<close>

lemma handled_end_of_cycle_cases:
  obtains (slept)
      "time_sleep w (polling_interval (timing cfg)) = Inr (Sleep (polling_interval (timing cfg)))"
      "except_clause (end_of_cycle cfg w ev s) =
         (ev @ [Sleep (polling_interval (timing cfg))], s\<lparr>consecutive_errors := 0\<rparr>)"
  | (raised) e where
      "time_sleep w (polling_interval (timing cfg)) = Inl e"
      "except_clause (end_of_cycle cfg w ev s) = (ev @ [Sleep 2], s\<lparr>consecutive_errors := 1\<rparr>)"
proof (cases rule: time_sleep_cases [of w "polling_interval (timing cfg)"])
  case slept
  then show thesis
    by (intro that(1)) (simp_all add: end_of_cycle_def except_clause_def)
next
  case (raised e)
  then show thesis
    by (intro that(2) [of e]) (simp_all add: end_of_cycle_def except_clause_def count_error_eq)
qed

lemma except_clause_append:
  "except_clause (ev @ ev', s, r) =
     (ev @ fst (except_clause (ev', s, r)), snd (except_clause (ev', s, r)))"
  by (simp add: except_clause_def split: option.splits prod.splits)

text \<open>
  The measuring part of a cycle ends in \<open>end_of_cycle\<close>, with events of the
  metrics and of the actuation, and with a state that differs from the one
  before at most in \<^verbatim>\<open>last_scale_time\<close>.
\<close>

lemma measure_and_scale_shape:
  obtains ev s' where
    "set ev \<subseteq> range LLen \<union> {ContainersList} \<union> range Log \<union> range SubprocessRun"
    "s' = s \<or> s' = s\<lparr>last_scale_time := ct\<rparr>"
    "last_scale_time s' =
       (if \<exists>c r. SubprocessRun c \<in> set ev \<and> subprocess_run w c = Inr r
        then ct else last_scale_time s)"
    "Log ''Scaling failed'' \<in> set ev \<longrightarrow> s' = s"
    "measure_and_scale cfg w s ct = end_of_cycle cfg w ev s'"
proof -
  obtain ev_q ql where q: "get_queue_length (queue cfg) w s = (ev_q, ql)"
    by (cases "get_queue_length (queue cfg) w s")
  obtain ev_r cr where r: "get_current_replicas w s = (ev_r, cr)"
    by (cases "get_current_replicas w s")
  have evs: "set (ev_q @ ev_r) \<subseteq> range LLen \<union> {ContainersList}"
    using get_queue_length_events [of "queue cfg" w s] get_current_replicas_events [of w s] q r
    by auto
  show thesis
  proof (cases "make_scaling_decision cfg ql cr")
    case None
    then have "measure_and_scale cfg w s ct = end_of_cycle cfg w (ev_q @ ev_r) s"
      by (simp add: measure_and_scale_def q r)
    with evs show thesis by (intro that [of "ev_q @ ev_r" s]) auto
  next
    case (Some d)
    obtain t reason where d: "d = (t, reason)" by (cases d)
    show thesis
    proof (cases "t < 0")
      case True
      with Some d have "measure_and_scale cfg w s ct =
         end_of_cycle cfg w ((ev_q @ ev_r) @ [Log ''Scaling decision made'', Log ''Scaling failed'']) s"
        by (simp add: measure_and_scale_def q r execute_scaling_def scale_service_eq)
      with evs show thesis
        by (intro that [of "(ev_q @ ev_r) @ [Log ''Scaling decision made'', Log ''Scaling failed'']" s])
          auto
    next
      case False
      show thesis
      proof (cases "subprocess_run w (scale_command (docker cfg) t)")
        case (Inl e)
        with Some d False have "measure_and_scale cfg w s ct =
           end_of_cycle cfg w ((ev_q @ ev_r) @ [Log ''Scaling decision made'',
                SubprocessRun (scale_command (docker cfg) t), Log ''Scaling failed'']) s"
          by (simp add: measure_and_scale_def q r execute_scaling_def scale_service_eq)
        with evs Inl show thesis
          by (intro that [of "(ev_q @ ev_r) @ [Log ''Scaling decision made'',
                SubprocessRun (scale_command (docker cfg) t), Log ''Scaling failed'']" s])
            auto
      next
        case (Inr res)
        with Some d False have "measure_and_scale cfg w s ct =
           end_of_cycle cfg w ((ev_q @ ev_r) @ [Log ''Scaling decision made'',
                SubprocessRun (scale_command (docker cfg) t),
                Log ''Scaling completed successfully''])
             (s\<lparr>last_scale_time := ct\<rparr>)"
          by (simp add: measure_and_scale_def q r execute_scaling_def scale_service_eq)
        moreover have "\<exists>c r. SubprocessRun c \<in> set ((ev_q @ ev_r) @ [Log ''Scaling decision made'',
                SubprocessRun (scale_command (docker cfg) t),
                Log ''Scaling completed successfully'']) \<and> subprocess_run w c = Inr r"
          using Inr by (intro exI [of _ "scale_command (docker cfg) t"] exI [of _ res]) simp
        ultimately show thesis using evs
          by (intro that [of "(ev_q @ ev_r) @ [Log ''Scaling decision made'',
                SubprocessRun (scale_command (docker cfg) t),
                Log ''Scaling completed successfully'']" "s\<lparr>last_scale_time := ct\<rparr>"])
            auto
      qed
    qed
  qed
qed

lemma connect_cases:
  obtains (ok) "connect w s = ([RedisNew, Ping], s\<lparr>redis_client := True\<rparr>, True)"
  | (refused) ev s1 where
      "set ev \<subseteq> {Ping, RedisNew}" "s1 = s \<or> s1 = s\<lparr>redis_client := True\<rparr>"
      "connect w s = (ev, s1, False)"
proof (cases "redis_new w")
  case (Some e)
  then have "connect w s = ([RedisNew], s, False)" by (simp add: connect_def)
  then show thesis by (intro refused [of "[RedisNew]" s]) simp_all
next
  case None
  show thesis
  proof (cases "connect_ping w")
    case (Some e)
    with None have "connect w s = ([RedisNew, Ping], s\<lparr>redis_client := True\<rparr>, False)"
      by (simp add: connect_def)
    then show thesis by (intro refused [of "[RedisNew, Ping]" "s\<lparr>redis_client := True\<rparr>"]) simp_all
  next
    case ping_ok: None
    with None show thesis by (intro ok) (simp add: connect_def)
  qed
qed

lemma is_connected_cases:
  obtains (raised) e where "is_connected w s = ([Ping], Inl e)"
  | (answer) ev b where "set ev \<subseteq> {Ping}" "is_connected w s = (ev, Inr b)"
proof (cases "redis_client s")
  case False
  then have "is_connected w s = ([], Inr False)" by (simp add: is_connected_def)
  then show thesis by (intro answer [of "[]" False]) simp_all
next
  case True
  show thesis
  proof (cases "ping w")
    case None
    with True have "is_connected w s = ([Ping], Inr True)" by (simp add: is_connected_def)
    then show thesis by (intro answer [of "[Ping]" True]) simp_all
  next
    case (Some e)
    show thesis
    proof (cases "e = ConnectionError")
      case True
      with Some \<open>redis_client s\<close> have "is_connected w s = ([Ping], Inr False)"
        by (simp add: is_connected_def)
      then show thesis by (intro answer [of "[Ping]" False]) simp_all
    next
      case False
      with Some \<open>redis_client s\<close> have "is_connected w s = ([Ping], Inl e)"
        by (simp add: is_connected_def)
      then show thesis by (rule raised)
    qed
  qed
qed

text \<open>
  An iteration in the cooldown: it sleeps one polling interval, unless the
  conversion of line 121 or the sleep raises, which is counted as an error.
\<close>

lemma cooldown_body:
  assumes "now w - last_scale_time s < real_of_int (cooldown_period (timing cfg))"
  shows "loop_body cfg w s =
     (if \<not> int_to_float_overflows (cooldown_period (timing cfg))
         \<and> time_sleep w (polling_interval (timing cfg)) = Inr (Sleep (polling_interval (timing cfg)))
      then ([Sleep (polling_interval (timing cfg))], s)
      else count_error s)"
  using assms
  by (cases rule: time_sleep_cases [of w "polling_interval (timing cfg)"])
     (simp_all add: loop_body_def try_block_def except_clause_def split: prod.splits)

lemma loop_body_cases:
  obtains (cooldown)
      "now w - last_scale_time s < real_of_int (cooldown_period (timing cfg))"
      "loop_body cfg w s = ([Sleep (polling_interval (timing cfg))], s)"
  | (error) ev s1 where
      "set ev \<subseteq> {Ping, RedisNew}"
      "s1 = s \<or> s1 = s\<lparr>redis_client := True\<rparr>"
      "loop_body cfg w s = (ev @ fst (count_error s1), snd (count_error s1))"
  | (measure) ev s1 where
      "\<not> now w - last_scale_time s < real_of_int (cooldown_period (timing cfg))"
      "set ev \<subseteq> {Ping, RedisNew}"
      "s1 = s \<or> s1 = s\<lparr>redis_client := True\<rparr>"
      "loop_body cfg w s =
         (ev @ fst (except_clause (measure_and_scale cfg w s1 (now w))),
          snd (except_clause (measure_and_scale cfg w s1 (now w))))"
proof (cases "now w - last_scale_time s < real_of_int (cooldown_period (timing cfg))")
  case True
  show thesis
  proof (cases "\<not> int_to_float_overflows (cooldown_period (timing cfg))
         \<and> time_sleep w (polling_interval (timing cfg)) = Inr (Sleep (polling_interval (timing cfg)))")
    case slept: True
    with True cooldown_body [OF True] show thesis by (intro cooldown) simp_all
  next
    case False
    with cooldown_body [OF True]
    have "loop_body cfg w s = ([] @ fst (count_error s), snd (count_error s))"
      by (simp del: not_le)
    then show thesis by (intro error [of "[]" s]) simp_all
  qed
next
  case hot: False
  show thesis
  proof (cases rule: is_connected_cases [of w s])
    case (raised e)
    with hot have "loop_body cfg w s = ([Ping] @ fst (count_error s), snd (count_error s))"
      by (simp add: loop_body_def try_block_def except_clause_def split: prod.splits)
    then show thesis by (intro error [of "[Ping]" s]) simp_all
  next
    case (answer ev_c b)
    show thesis
    proof (cases b)
      case True
      obtain ev_m s' r where m: "measure_and_scale cfg w s (now w) = (ev_m, s', r)"
        by (cases "measure_and_scale cfg w s (now w)")
      with hot answer True have "loop_body cfg w s = except_clause (ev_c @ ev_m, s', r)"
        by (simp add: loop_body_def try_block_def)
      then have "loop_body cfg w s =
          (ev_c @ fst (except_clause (measure_and_scale cfg w s (now w))),
           snd (except_clause (measure_and_scale cfg w s (now w))))"
        by (simp add: except_clause_append m)
      with hot answer show thesis by (intro measure [of ev_c s]) auto
    next
      case False
      show thesis
      proof (cases rule: connect_cases [of w s])
        case ok
        obtain ev_m s' r where m:
          "measure_and_scale cfg w (s\<lparr>redis_client := True\<rparr>) (now w) = (ev_m, s', r)"
          by (cases "measure_and_scale cfg w (s\<lparr>redis_client := True\<rparr>) (now w)")
        with hot answer False ok
        have "loop_body cfg w s = except_clause ((ev_c @ [RedisNew, Ping]) @ ev_m, s', r)"
          by (simp add: loop_body_def try_block_def)
        then have "loop_body cfg w s =
          ((ev_c @ [RedisNew, Ping])
             @ fst (except_clause (measure_and_scale cfg w (s\<lparr>redis_client := True\<rparr>) (now w))),
           snd (except_clause (measure_and_scale cfg w (s\<lparr>redis_client := True\<rparr>) (now w))))"
          by (simp only: except_clause_append m)
        with hot answer show thesis
          by (intro measure [of "ev_c @ [RedisNew, Ping]" "s\<lparr>redis_client := True\<rparr>"]) auto
      next
        case (refused ev_n s1)
        with hot answer False have "loop_body cfg w s =
          ((ev_c @ ev_n) @ fst (count_error s1), snd (count_error s1))"
          by (simp add: loop_body_def try_block_def except_clause_def split: prod.splits)
        with answer refused show thesis
          by (intro error [of "ev_c @ ev_n" s1]) auto
      qed
    qed
  qed
qed

lemma sleeps_connect_events: "set ev \<subseteq> {Ping, RedisNew} \<Longrightarrow> sleeps ev = []"
  by (induction ev rule: sleeps.induct) auto

lemma sleeps_measure_events:
  "set ev \<subseteq> range LLen \<union> {ContainersList} \<union> range Log \<union> range SubprocessRun
   \<Longrightarrow> sleeps ev = []"
  by (induction ev rule: sleeps.induct) auto

text \<open>
  The measuring part of a cycle with the \<^verbatim>\<open>except\<close> clause after it, in
  one statement: the events end with the sleep of the polling interval and
  the counter is 0, or, when that sleep raises, with a backoff of 2 seconds
  and the counter is 1.
\<close>

lemma measured_cases:
  obtains ev s' k n where
    "set ev \<subseteq> range LLen \<union> {ContainersList} \<union> range Log \<union> range SubprocessRun"
    "s' = s \<or> s' = s\<lparr>last_scale_time := ct\<rparr>"
    "last_scale_time s' =
       (if \<exists>c r. SubprocessRun c \<in> set ev \<and> subprocess_run w c = Inr r
        then ct else last_scale_time s)"
    "Log ''Scaling failed'' \<in> set ev \<longrightarrow> s' = s"
    "(k, n) = (case time_sleep w (polling_interval (timing cfg)) of
                 Inr slept \<Rightarrow> (polling_interval (timing cfg), 0) | Inl e \<Rightarrow> (2, 1))"
    "except_clause (measure_and_scale cfg w s ct) = (ev @ [Sleep k], s'\<lparr>consecutive_errors := n\<rparr>)"
proof (cases rule: measure_and_scale_shape [of s ct w cfg])
  case (1 ev s')
  show thesis
  proof (cases rule: handled_end_of_cycle_cases [of w cfg ev s'])
    case slept
    with 1 show thesis
      by (intro that [of ev s' "polling_interval (timing cfg)" 0]) simp_all
  next
    case (raised e)
    with 1 show thesis
      by (intro that [of ev s' 2 1]) simp_all
  qed
qed


lemma iteration_events: "fst (iteration cfg w s) = fst (loop_body cfg w s)"
  by (simp add: iteration_def split: prod.splits)

lemma iteration_last_scale_time:
  "last_scale_time (snd (iteration cfg w s)) = last_scale_time (snd (loop_body cfg w s))"
  by (simp add: iteration_def split: prod.splits)

lemma iteration_consecutive_errors:
  "consecutive_errors (snd (iteration cfg w s)) = consecutive_errors (snd (loop_body cfg w s))"
  by (simp add: iteration_def split: prod.splits)

lemma iteration_running:
  "running (snd (iteration cfg w s)) = (running (snd (loop_body cfg w s)) \<and> \<not> signal w)"
  by (simp add: iteration_def split: prod.splits)

lemma count_error_last_scale_time:
  "last_scale_time (snd (count_error s)) = last_scale_time s"
  by (simp add: count_error_eq)

lemma count_error_events:
  "set (fst (count_error s)) \<subseteq> range Sleep"
  by (simp add: count_error_eq)

lemmas iteration_simps =
  iteration_events iteration_last_scale_time iteration_consecutive_errors iteration_running

section \<open>Properties of one iteration\<close>

text \<open>
  Claim C2, as amended. In an iteration that starts within the cooldown
  period (\<open>now - last_scale_time < cooldown_period\<close>), \<^verbatim>\<open>subprocess.run\<close> is
  not called, whatever the decision would be, and no queue length is read
  and no replica is counted either: the \<^verbatim>\<open>continue\<close> of line 128 comes before
  the measurement.
\<close>

theorem cooldown_skips_cycle:
  assumes "now w - last_scale_time s < real_of_int (cooldown_period (timing cfg))"
  shows "(\<forall>c. SubprocessRun c \<notin> set (fst (iteration cfg w s)))
       \<and> (\<forall>k. LLen k \<notin> set (fst (iteration cfg w s)))
       \<and> ContainersList \<notin> set (fst (iteration cfg w s))"
proof -
  have "fst (loop_body cfg w s) = [Sleep (polling_interval (timing cfg))]
      \<or> fst (loop_body cfg w s) = fst (count_error s)"
    using cooldown_body [OF assms] by (simp del: not_le)
  then have "set (fst (loop_body cfg w s)) \<subseteq> range Sleep"
    using count_error_events [of s] by auto
  then show ?thesis by (auto simp: iteration_events)
qed

lemma busy_cooldown_iteration:
  "iteration default_config busy_world recently_scaled = ([Sleep 30], recently_scaled)"
proof -
  have "now busy_world - last_scale_time recently_scaled
     < real_of_int (cooldown_period (timing default_config))"
    by (simp add: busy_world_def recently_scaled_def connected_scaler_def default_config_def)
  moreover have "\<not> int_to_float_overflows (cooldown_period (timing default_config))"
    by (simp add: int_to_float_overflows_def default_config_def)
  moreover have "time_sleep busy_world (polling_interval (timing default_config)) = Inr (Sleep 30)"
    by (simp add: time_sleep_def busy_world_def default_config_def)
  moreover have "polling_interval (timing default_config) = 30" "\<not> signal busy_world"
    by (simp_all add: default_config_def busy_world_def)
  ultimately show ?thesis
    by (simp add: iteration_def cooldown_body)
qed

theorem cooldown_skips_cycle_witness:
  "now busy_world - last_scale_time recently_scaled
     < real_of_int (cooldown_period (timing default_config))
   \<and> make_scaling_decision default_config 6 2 = Some (3, ''Queue length 6 > threshold 5'')
   \<and> SubprocessRun (scale_command (docker default_config) 3)
       \<notin> set (fst (iteration default_config busy_world recently_scaled))"
proof -
  have c: "now busy_world - last_scale_time recently_scaled
     < real_of_int (cooldown_period (timing default_config))"
    by (simp add: busy_world_def recently_scaled_def connected_scaler_def default_config_def)
  have d: "make_scaling_decision default_config 6 2 = Some (3, ''Queue length 6 > threshold 5'')"
    by (simp add: make_scaling_decision_def default_config_def up_reason_def str_int_examples)
  show ?thesis using c d cooldown_skips_cycle [OF c] by simp
qed

text \<open>
  Claim C2 as stated fails: 60 seconds after a scaling, with a cooldown of
  120 seconds, six jobs waiting and two workers running, the iteration only
  sleeps; it neither reads a queue length nor lists the containers.
\<close>

theorem cooldown_measurement_counterexample:
  "now busy_world - last_scale_time recently_scaled
     < real_of_int (cooldown_period (timing default_config))
   \<and> fst (iteration default_config busy_world recently_scaled) = [Sleep 30]
   \<and> LLen ''bull:jobs:wait'' \<notin> set (fst (iteration default_config busy_world recently_scaled))
   \<and> ContainersList \<notin> set (fst (iteration default_config busy_world recently_scaled))"
  by (simp add: busy_cooldown_iteration)
     (simp add: busy_world_def recently_scaled_def connected_scaler_def default_config_def)

text \<open>
  Claim C7. After an iteration, \<^verbatim>\<open>last_scale_time\<close> is the current time of
  the iteration when the iteration ran a scale command and the command
  succeeded; in every other iteration (cooldown, an error, no decision, a
  target rejected, a command that failed) it keeps its value.
\<close>

theorem last_scale_time_frame:
  "last_scale_time (snd (iteration cfg w s)) =
     (if \<exists>c r. SubprocessRun c \<in> set (fst (iteration cfg w s)) \<and> subprocess_run w c = Inr r
      then now w else last_scale_time s)"
proof (cases rule: loop_body_cases [of w s cfg])
  case cooldown
  then show ?thesis by (simp add: iteration_simps)
next
  case (error ev s1)
  then have "\<And>c. SubprocessRun c \<notin> set (fst (loop_body cfg w s))"
    using count_error_events [of s1] by auto
  moreover have "last_scale_time (snd (loop_body cfg w s)) = last_scale_time s"
    using error by (auto simp: count_error_last_scale_time)
  ultimately show ?thesis by (simp add: iteration_simps)
next
  case (measure ev s1)
  have s1: "last_scale_time s1 = last_scale_time s" using measure(3) by auto
  obtain ev_m s' k n where m:
    "last_scale_time s' =
       (if \<exists>c r. SubprocessRun c \<in> set ev_m \<and> subprocess_run w c = Inr r
        then now w else last_scale_time s1)"
    "except_clause (measure_and_scale cfg w s1 (now w)) =
       (ev_m @ [Sleep k], s'\<lparr>consecutive_errors := n\<rparr>)"
    by (rule measured_cases [of s1 "now w" w cfg])
  define P where "P = (\<exists>c r. SubprocessRun c \<in> set ev_m \<and> subprocess_run w c = Inr r)"
  have m1: "last_scale_time s' = (if P then now w else last_scale_time s1)"
    using m(1) unfolding P_def .
  have same: "(\<exists>c r. SubprocessRun c \<in> set (fst (loop_body cfg w s)) \<and> subprocess_run w c = Inr r)
      = P"
    unfolding P_def using measure(2,4) m(2) by auto
  have after: "last_scale_time (snd (loop_body cfg w s)) = last_scale_time s'"
    using measure(4) m(2) by simp
  show ?thesis
    unfolding iteration_events iteration_last_scale_time same after m1 s1 ..
qed

text \<open>
  Claim C1, as amended. In an iteration in which there is a decision and the
  actuation fails, that is, \<^verbatim>\<open>_execute_scaling\<close> logs \<^verbatim>\<open>Scaling failed\<close>, the
  failure is not counted: line 163 resets the counter of consecutive errors,
  whatever it was, and \<^verbatim>\<open>last_scale_time\<close> keeps its value. The counter is 0
  after the iteration when the sleep of the polling interval returns; when
  that sleep raises, it is this exception that is counted, and the counter
  is 1.
\<close>

theorem actuation_failure_resets_counter:
  assumes "Log ''Scaling failed'' \<in> set (fst (iteration cfg w s))"
  shows "consecutive_errors (snd (iteration cfg w s)) =
           (case time_sleep w (polling_interval (timing cfg)) of Inr slept \<Rightarrow> 0 | Inl e \<Rightarrow> 1)
       \<and> last_scale_time (snd (iteration cfg w s)) = last_scale_time s"
proof (cases rule: loop_body_cases [of w s cfg])
  case cooldown
  with assms show ?thesis by (simp add: iteration_simps)
next
  case (error ev s1)
  with assms count_error_events [of s1] show ?thesis by (auto simp: iteration_simps)
next
  case (measure ev s1)
  have s1: "last_scale_time s1 = last_scale_time s" using measure(3) by auto
  obtain ev_m s' k n where m:
    "Log ''Scaling failed'' \<in> set ev_m \<longrightarrow> s' = s1"
    "(k, n) = (case time_sleep w (polling_interval (timing cfg)) of
                 Inr slept \<Rightarrow> (polling_interval (timing cfg), 0) | Inl e \<Rightarrow> (2, 1))"
    "except_clause (measure_and_scale cfg w s1 (now w)) =
       (ev_m @ [Sleep k], s'\<lparr>consecutive_errors := n\<rparr>)"
    by (rule measured_cases [of s1 "now w" w cfg])
  have "Log ''Scaling failed'' \<in> set ev_m"
    using assms measure(2,4) m(3) by (auto simp: iteration_simps)
  with m(1) have "s' = s1" by simp
  moreover have "n = (case time_sleep w (polling_interval (timing cfg)) of Inr slept \<Rightarrow> 0 | Inl e \<Rightarrow> 1)"
    using m(2) by (simp split: sum.splits)
  ultimately show ?thesis
    using measure(4) m(3) s1 by (simp add: iteration_simps)
qed

text \<open>
  The line \<^verbatim>\<open>Scaling failed\<close> is logged in the measuring part exactly when
  there is a decision and \<^verbatim>\<open>scale_service\<close> returns \<^verbatim>\<open>False\<close> for its target,
  with or without a command run.
\<close>

lemma scaling_failed_logged:
  "Log ''Scaling failed'' \<in> set (fst (measure_and_scale cfg w s ct)) \<longleftrightarrow>
     (\<exists>target reason.
        make_scaling_decision cfg (snd (get_queue_length (queue cfg) w s))
          (snd (get_current_replicas w s)) = Some (target, reason)
        \<and> \<not> snd (scale_service (docker cfg) w target))"
proof -
  obtain ev_q ql where q: "get_queue_length (queue cfg) w s = (ev_q, ql)"
    by (cases "get_queue_length (queue cfg) w s")
  obtain ev_r cr where r: "get_current_replicas w s = (ev_r, cr)"
    by (cases "get_current_replicas w s")
  have evs: "Log ''Scaling failed'' \<notin> set ev_q" "Log ''Scaling failed'' \<notin> set ev_r"
    using get_queue_length_events [of "queue cfg" w s] get_current_replicas_events [of w s] q r
    by auto
  have slept: "Log ''Scaling failed'' \<in> set (fst (end_of_cycle cfg w ev s'))
      \<longleftrightarrow> Log ''Scaling failed'' \<in> set ev" for ev s'
    by (cases rule: time_sleep_cases [of w "polling_interval (timing cfg)"])
       (simp_all add: end_of_cycle_def)
  show ?thesis
  proof (cases "make_scaling_decision cfg ql cr")
    case None
    with evs show ?thesis by (simp add: measure_and_scale_def q r slept)
  next
    case (Some d)
    obtain t reason where d: "d = (t, reason)" by (cases d)
    obtain ev_s ok where sc: "scale_service (docker cfg) w t = (ev_s, ok)"
      by (cases "scale_service (docker cfg) w t")
    have "Log ''Scaling failed'' \<notin> set ev_s"
      using sc by (auto simp: scale_service_eq split: if_splits)
    with Some d sc evs show ?thesis
      by (simp add: measure_and_scale_def q r slept execute_scaling_def)
  qed
qed


lemma compose_failing_iteration:
  "iteration default_config compose_failing_world (connected_scaler\<lparr>consecutive_errors := 2\<rparr>) =
     ([Ping, LLen ''bull:jobs:wait'', ContainersList, Log ''Scaling decision made'',
       SubprocessRun (scale_command (docker default_config) 3), Log ''Scaling failed'',
       Sleep 30],
      connected_scaler)"
  by (simp add: iteration_def loop_body_def try_block_def except_clause_def default_config_def
      compose_failing_world_def busy_world_def connected_scaler_def is_connected_def
      measure_and_scale_def end_of_cycle_def time_sleep_def
      get_queue_length_def key_patterns_def get_queue_key_def redis_llen_def
      get_current_replicas_def make_scaling_decision_def execute_scaling_def
      scale_service_def)

theorem actuation_failure_resets_counter_witness:
  "Log ''Scaling failed''
     \<in> set (fst (iteration default_config compose_failing_world
                  (connected_scaler\<lparr>consecutive_errors := 2\<rparr>)))
   \<and> consecutive_errors (snd (iteration default_config compose_failing_world
                  (connected_scaler\<lparr>consecutive_errors := 2\<rparr>))) = 0
   \<and> last_scale_time (snd (iteration default_config compose_failing_world
                  (connected_scaler\<lparr>consecutive_errors := 2\<rparr>))) = 0"
proof -
  have logged: "Log ''Scaling failed''
     \<in> set (fst (iteration default_config compose_failing_world
                  (connected_scaler\<lparr>consecutive_errors := 2\<rparr>)))"
    by (simp add: compose_failing_iteration)
  have slept: "time_sleep compose_failing_world (polling_interval (timing default_config))
      = Inr (Sleep 30)"
    by (simp add: time_sleep_def compose_failing_world_def busy_world_def default_config_def)
  show ?thesis
    using logged actuation_failure_resets_counter [OF logged]
    by (simp add: slept connected_scaler_def)
qed

text \<open>
  Claim C1 as stated fails: with two errors counted, six jobs waiting, two
  workers running and a \<^verbatim>\<open>docker compose\<close> that exits with an error, the
  decision is to scale to 3, the actuation returns \<^verbatim>\<open>False\<close>, and the counter
  after the iteration is 0, not 3.
\<close>

theorem actuation_failure_counterexample:
  "make_scaling_decision default_config 6 2 = Some (3, ''Queue length 6 > threshold 5'')
   \<and> snd (scale_service (docker default_config) compose_failing_world 3) = False
   \<and> fst (iteration default_config compose_failing_world
            (connected_scaler\<lparr>consecutive_errors := 2\<rparr>)) =
       [Ping, LLen ''bull:jobs:wait'', ContainersList, Log ''Scaling decision made'',
        SubprocessRun (scale_command (docker default_config) 3), Log ''Scaling failed'',
        Sleep 30]
   \<and> consecutive_errors (snd (iteration default_config compose_failing_world
            (connected_scaler\<lparr>consecutive_errors := 2\<rparr>))) \<noteq> 2 + 1"
proof -
  have "make_scaling_decision default_config 6 2 = Some (3, ''Queue length 6 > threshold 5'')"
    by (simp add: make_scaling_decision_def default_config_def up_reason_def str_int_examples)
  moreover have "snd (scale_service (docker default_config) compose_failing_world 3) = False"
    by (simp add: scale_service_eq compose_failing_world_def)
  moreover have "consecutive_errors connected_scaler \<noteq> 2 + 1"
    by (simp add: connected_scaler_def)
  ultimately show ?thesis
    unfolding compose_failing_iteration by simp
qed

text \<open>
  A target that \<^verbatim>\<open>scale_service\<close> rejects: with a minimum of -3 (which the
  validator of \<^verbatim>\<open>min_replicas\<close> does not let through), an empty queue and
  no worker running, the decision is to scale down to -1; no command is run,
  the failure is logged, and the counter is reset all the same.
\<close>

lemma rejected_target_iteration:
  "iteration (default_config\<lparr>scaling := (scaling default_config)\<lparr>min_replicas := - 3\<rparr>\<rparr>)
     (busy_world\<lparr>llen := redis_llen Map.empty, containers_list := Inr []\<rparr>)
     (connected_scaler\<lparr>consecutive_errors := 2\<rparr>) =
     ([Ping, LLen ''bull:jobs:wait'', ContainersList, Log ''Scaling decision made'',
       Log ''Scaling failed'', Sleep 30],
      connected_scaler)"
  by (simp add: iteration_def loop_body_def try_block_def except_clause_def default_config_def
      busy_world_def connected_scaler_def is_connected_def
      measure_and_scale_def end_of_cycle_def time_sleep_def
      get_queue_length_def key_patterns_def get_queue_key_def redis_llen_def
      get_current_replicas_def make_scaling_decision_def execute_scaling_def
      scale_service_def)

section \<open>Backoff and fail-stop\<close>

lemma handler_sequence:
  "map (\<lambda>n. handle_consecutive_errors s n max_consecutive_errors) [1, 2, 3, 4, 5] =
     [([Sleep 2], s), ([Sleep 4], s), ([Sleep 6], s), ([Sleep 8], s),
      ([], s\<lparr>running := False\<rparr>)]"
  by (simp add: handle_consecutive_errors_def max_consecutive_errors_def)

text \<open>
  Claim C5. With the budget of 5, \<^verbatim>\<open>_handle_consecutive_errors\<close> sleeps
  2, 4, 6 and 8 seconds for the counts 1 to 4, which is
  \<open>min (count * 2) 60\<close>, and for the count 5 it does not sleep and sets
  \<^verbatim>\<open>running\<close> to \<^verbatim>\<open>False\<close>. In the loop: an iteration that counts an error,
  taking the counter from a value that is not negative to \<open>n\<close>, sleeps exactly
  once, for \<open>min (n * 2) 60\<close> seconds, when \<open>n < 5\<close>, and does not sleep and
  leaves \<^verbatim>\<open>running\<close> false when \<open>n\<close> reaches 5.
\<close>

theorem backoff_sequence:
  "map (\<lambda>n. handle_consecutive_errors s n max_consecutive_errors) [1, 2, 3, 4, 5] =
     [([Sleep 2], s), ([Sleep 4], s), ([Sleep 6], s), ([Sleep 8], s),
      ([], s\<lparr>running := False\<rparr>)]
   \<and> (0 \<le> consecutive_errors s
        \<and> consecutive_errors (snd (iteration cfg w s)) = consecutive_errors s + 1
      \<longrightarrow> sleeps (fst (iteration cfg w s)) =
            (if consecutive_errors s + 1 < 5
             then [min ((consecutive_errors s + 1) * 2) 60] else [])
          \<and> running (snd (iteration cfg w s)) =
            (running s \<and> \<not> signal w \<and> consecutive_errors s + 1 < 5))"
proof (intro conjI impI)
  show "map (\<lambda>n. handle_consecutive_errors s n max_consecutive_errors) [1, 2, 3, 4, 5] =
     [([Sleep 2], s), ([Sleep 4], s), ([Sleep 6], s), ([Sleep 8], s),
      ([], s\<lparr>running := False\<rparr>)]"
    by (rule handler_sequence)
next
  assume a: "0 \<le> consecutive_errors s
        \<and> consecutive_errors (snd (iteration cfg w s)) = consecutive_errors s + 1"
  have "sleeps (fst (iteration cfg w s)) =
            (if consecutive_errors s + 1 < 5
             then [min ((consecutive_errors s + 1) * 2) 60] else [])
          \<and> running (snd (iteration cfg w s)) =
            (running s \<and> \<not> signal w \<and> consecutive_errors s + 1 < 5)"
  proof (cases rule: loop_body_cases [of w s cfg])
    case cooldown
    with a show ?thesis by (simp add: iteration_simps)
  next
    case (error ev s1)
    have s1: "consecutive_errors s1 = consecutive_errors s" "running s1 = running s"
      using error(2) by auto
    from error s1 show ?thesis
      by (auto simp: iteration_simps count_error_eq sleeps_append sleeps_connect_events)
  next
    case (measure ev s1)
    have s1: "running s1 = running s" using measure(3) by auto
    obtain ev_m s' k n where m:
      "set ev_m \<subseteq> range LLen \<union> {ContainersList} \<union> range Log \<union> range SubprocessRun"
      "s' = s1 \<or> s' = s1\<lparr>last_scale_time := now w\<rparr>"
      "(k, n) = (case time_sleep w (polling_interval (timing cfg)) of
                   Inr slept \<Rightarrow> (polling_interval (timing cfg), 0) | Inl e \<Rightarrow> (2, 1))"
      "except_clause (measure_and_scale cfg w s1 (now w)) =
         (ev_m @ [Sleep k], s'\<lparr>consecutive_errors := n\<rparr>)"
      by (rule measured_cases [of s1 "now w" w cfg])
    have body: "loop_body cfg w s = (ev @ ev_m @ [Sleep k], s'\<lparr>consecutive_errors := n\<rparr>)"
      using measure(4) m(4) by simp
    with a have n: "n = consecutive_errors s + 1" by (simp add: iteration_simps)
    have "n = 0 \<or> (n = 1 \<and> k = 2)" using m(3) by (auto split: sum.splits)
    with n a have one: "consecutive_errors s = 0" "k = 2" by auto
    have "sleeps (fst (loop_body cfg w s)) = [2]"
      using body one measure(2) m(1)
      by (simp add: sleeps_append sleeps_connect_events sleeps_measure_events)
    moreover have "running (snd (loop_body cfg w s)) = running s"
      using body m(2) s1 by auto
    ultimately show ?thesis using one by (simp add: iteration_simps)
  qed
  then show "sleeps (fst (iteration cfg w s)) =
            (if consecutive_errors s + 1 < 5
             then [min ((consecutive_errors s + 1) * 2) 60] else [])"
    and "running (snd (iteration cfg w s)) =
            (running s \<and> \<not> signal w \<and> consecutive_errors s + 1 < 5)"
    by simp_all
qed

lemma redis_down_iteration:
  "iteration default_config redis_down_world (connected_scaler\<lparr>consecutive_errors := n\<rparr>) =
     (if n + 1 \<ge> 5
      then ([Ping, RedisNew, Ping], connected_scaler\<lparr>consecutive_errors := n + 1, running := False\<rparr>)
      else ([Ping, RedisNew, Ping, Sleep (min ((n + 1) * 2) 60)],
            connected_scaler\<lparr>consecutive_errors := n + 1\<rparr>))"
  by (simp add: iteration_def loop_body_def try_block_def except_clause_def default_config_def
      redis_down_world_def busy_world_def connected_scaler_def is_connected_def connect_def
      count_error_eq)

theorem backoff_sequence_witness:
  "0 \<le> consecutive_errors (connected_scaler\<lparr>consecutive_errors := 3\<rparr>)
   \<and> consecutive_errors (snd (iteration default_config redis_down_world
         (connected_scaler\<lparr>consecutive_errors := 3\<rparr>))) = 3 + 1
   \<and> sleeps (fst (iteration default_config redis_down_world
         (connected_scaler\<lparr>consecutive_errors := 3\<rparr>))) = [8]
   \<and> running (snd (iteration default_config redis_down_world
         (connected_scaler\<lparr>consecutive_errors := 3\<rparr>)))"
  using backoff_sequence [of "connected_scaler\<lparr>consecutive_errors := 3\<rparr>"
      default_config redis_down_world]
  by (simp add: redis_down_iteration) (simp add: connected_scaler_def)

lemma while_running_stopped:
  "\<not> running s \<Longrightarrow> while_running cfg ws s = Some (shutdown s)"
  by (cases ws) simp_all

lemma shutdown_not_running: "\<not> running (snd (shutdown s))"
  by (simp add: shutdown_def disconnect_def)

lemma shutdown_events: "fst (shutdown s) = (if redis_client s then [Close] else [])"
  by (simp add: shutdown_def disconnect_def)

lemma iteration_budget:
  assumes "consecutive_errors s < max_consecutive_errors"
    and "running (snd (iteration cfg w s))"
  shows "consecutive_errors (snd (iteration cfg w s)) < max_consecutive_errors"
proof (cases rule: loop_body_cases [of w s cfg])
  case cooldown
  with assms show ?thesis by (simp add: iteration_simps)
next
  case (error ev s1)
  have "consecutive_errors s1 = consecutive_errors s" using error(2) by auto
  with error assms show ?thesis
    by (auto simp: iteration_simps count_error_eq max_consecutive_errors_def split: if_splits)
next
  case (measure ev s1)
  obtain ev_m s' k n where m:
    "(k, n) = (case time_sleep w (polling_interval (timing cfg)) of
                 Inr slept \<Rightarrow> (polling_interval (timing cfg), 0) | Inl e \<Rightarrow> (2, 1))"
    "except_clause (measure_and_scale cfg w s1 (now w)) =
       (ev_m @ [Sleep k], s'\<lparr>consecutive_errors := n\<rparr>)"
    by (rule measured_cases [of s1 "now w" w cfg])
  have "n = 0 \<or> n = 1" using m(1) by (auto split: sum.splits)
  with measure(4) m(2) show ?thesis
    by (auto simp: iteration_simps max_consecutive_errors_def)
qed


text \<open>
  Claim C6. At a loop head with \<^verbatim>\<open>running\<close> set and fewer than 5 errors
  counted: when the iteration takes the counter to 5, \<^verbatim>\<open>running\<close> is false
  after it, and the loop ends there whatever worlds would follow: its events
  are those of this iteration and of \<^verbatim>\<open>_shutdown\<close>, and no further iteration
  runs. The second part says that the assumption on the counter holds again
  at the next loop head, so it holds at every loop head of a run of
  \<^verbatim>\<open>_scaling_loop\<close>, which starts the counter at 0.
\<close>

theorem fail_stop:
  assumes "running s" and "consecutive_errors s < max_consecutive_errors"
  shows "(max_consecutive_errors \<le> consecutive_errors (snd (iteration cfg w s)) \<longrightarrow>
            \<not> running (snd (iteration cfg w s))
          \<and> while_running cfg (w # ws) s =
              Some (fst (iteration cfg w s) @ fst (shutdown (snd (iteration cfg w s))),
                    snd (shutdown (snd (iteration cfg w s))))
          \<and> \<not> running (snd (shutdown (snd (iteration cfg w s)))))
       \<and> (running (snd (iteration cfg w s)) \<longrightarrow>
            consecutive_errors (snd (iteration cfg w s)) < max_consecutive_errors)"
proof (intro conjI impI)
  show budget: "consecutive_errors (snd (iteration cfg w s)) < max_consecutive_errors"
    if "running (snd (iteration cfg w s))"
    using assms(2) that by (rule iteration_budget)
  assume reached: "max_consecutive_errors \<le> consecutive_errors (snd (iteration cfg w s))"
  show stopped: "\<not> running (snd (iteration cfg w s))"
    using reached budget by fastforce
  obtain ev s' where it: "iteration cfg w s = (ev, s')"
    by (cases "iteration cfg w s")
  with stopped have "while_running cfg ws s' = Some (shutdown s')"
    by (simp add: while_running_stopped)
  with it assms(1) show "while_running cfg (w # ws) s =
      Some (fst (iteration cfg w s) @ fst (shutdown (snd (iteration cfg w s))),
            snd (shutdown (snd (iteration cfg w s))))"
    by (cases "shutdown s'") simp
  show "\<not> running (snd (shutdown (snd (iteration cfg w s))))"
    by (rule shutdown_not_running)
qed

theorem fail_stop_witness:
  "running (connected_scaler\<lparr>consecutive_errors := 4\<rparr>)
   \<and> consecutive_errors (connected_scaler\<lparr>consecutive_errors := 4\<rparr>) < max_consecutive_errors
   \<and> max_consecutive_errors \<le> consecutive_errors (snd (iteration default_config redis_down_world
         (connected_scaler\<lparr>consecutive_errors := 4\<rparr>)))
   \<and> while_running default_config [redis_down_world, busy_world, busy_world]
         (connected_scaler\<lparr>consecutive_errors := 4\<rparr>) =
       Some ([Ping, RedisNew, Ping, Close],
             connected_scaler\<lparr>consecutive_errors := 5, running := False, redis_client := False\<rparr>)"
proof -
  have r: "running (connected_scaler\<lparr>consecutive_errors := 4\<rparr>)"
    by (simp add: connected_scaler_def)
  have b: "consecutive_errors (connected_scaler\<lparr>consecutive_errors := 4\<rparr>) < max_consecutive_errors"
    by (simp add: max_consecutive_errors_def)
  have it: "iteration default_config redis_down_world (connected_scaler\<lparr>consecutive_errors := 4\<rparr>)
      = ([Ping, RedisNew, Ping], connected_scaler\<lparr>consecutive_errors := 5, running := False\<rparr>)"
    by (simp add: redis_down_iteration)
  have sh: "shutdown (connected_scaler\<lparr>consecutive_errors := 5, running := False\<rparr>)
      = ([Close], connected_scaler\<lparr>consecutive_errors := 5, running := False, redis_client := False\<rparr>)"
    by (simp add: shutdown_def disconnect_def connected_scaler_def)
  show ?thesis
    using r b fail_stop [OF r b, of default_config redis_down_world "[busy_world, busy_world]"]
    unfolding it by (simp add: max_consecutive_errors_def sh)
qed

section \<open>The Redis client\<close>

text \<open>
  Claim C9 does not hold of the code: \<^verbatim>\<open>is_connected\<close> catches
  \<^verbatim>\<open>redis.ConnectionError\<close> only. With a client set and a ping that ends in
  \<^verbatim>\<open>redis.TimeoutError\<close> (the client is built with a socket timeout of 10
  seconds), the exception leaves \<^verbatim>\<open>is_connected\<close>.
\<close>

theorem is_connected_raises_on_timeout:
  "is_connected redis_timeout_world connected_scaler = ([Ping], Inl TimeoutError)"
  by (simp add: is_connected_def redis_timeout_world_def busy_world_def connected_scaler_def)

text \<open>
  In the remaining cases \<^verbatim>\<open>is_connected\<close> answers with a boolean, and
  \<^verbatim>\<open>connect\<close>, whose handlers end with \<^verbatim>\<open>except Exception\<close>, always does.
\<close>

lemma is_connected_answers:
  "\<not> redis_client s \<or> ping w = None \<or> ping w = Some ConnectionError
   \<Longrightarrow> \<exists>b. snd (is_connected w s) = Inr b"
  by (auto simp: is_connected_def)

lemma connect_never_raises: "\<exists>ev s' b. connect w s = (ev, s', b)"
  by (cases "connect w s") auto

text \<open>
  Claim C4 does not hold of the code on a Redis store: for a store whose only
  key is \<^verbatim>\<open>myapp:jobs:waiting\<close>, a list of seven elements, the probe asks
  for the length of \<^verbatim>\<open>myapp:jobs:wait\<close> first, Redis answers 0 for the
  missing key, 0 is not negative, and \<^verbatim>\<open>get_queue_length\<close> returns 0 without
  trying the second key.
\<close>

theorem queue_length_missing_first_key:
  "get_queue_length myapp_jobs waiting_only_world connected_scaler
     = ([LLen ''myapp:jobs:wait''], 0)"
  by (simp add: get_queue_length_def myapp_jobs_def waiting_only_world_def
      waiting_only_store_def busy_world_def connected_scaler_def key_patterns_def
      get_queue_key_def redis_llen_def)

text \<open>
  The order of the keys and the skipping are as the claim says, for any
  answers of the server: the first key whose answer is a length that is not
  negative decides, after every key before it was asked; and when no key has
  such an answer, all are asked and the loop ends without a value, which
  \<^verbatim>\<open>get_queue_length\<close> returns as 0. A first key of the wrong type is skipped.
\<close>

lemma try_key_patterns_first_usable:
  assumes "\<forall>k\<in>set pre. \<forall>n. f k = Inr (Some n) \<longrightarrow> n < 0"
    and "f key = Inr (Some n)" and "0 \<le> n"
  shows "try_key_patterns f (pre @ key # post) = (map LLen (pre @ [key]), Some n)"
  using assms by (induction pre) (auto split: sum.splits option.splits)

lemma try_key_patterns_none_usable:
  assumes "\<forall>k\<in>set ks. \<forall>n. f k = Inr (Some n) \<longrightarrow> n < 0"
  shows "try_key_patterns f ks = (map LLen ks, None)"
  using assms by (induction ks) (auto split: sum.splits option.splits)

lemma queue_length_wrong_type_fallback:
  "get_queue_length myapp_jobs
     (busy_world\<lparr>llen := redis_llen (waiting_only_store(''myapp:jobs:wait'' \<mapsto> RString ''x''))\<rparr>)
     connected_scaler
   = ([LLen ''myapp:jobs:wait'', LLen ''myapp:jobs:waiting''], 7)"
  by (simp add: get_queue_length_def myapp_jobs_def
      waiting_only_store_def busy_world_def connected_scaler_def key_patterns_def
      get_queue_key_def redis_llen_def)


section \<open>A run of the loop\<close>

text \<open>
  Five iterations against a Redis server that is down: the loop sleeps 2, 4,
  6 and 8 seconds, stops at the fifth failure and closes the client, whatever
  worlds would follow.
\<close>

lemma five_failures_run:
  "scaling_loop default_config
     (redis_down_world # redis_down_world # redis_down_world # redis_down_world
        # redis_down_world # ws) connected_scaler =
   Some ([Ping, RedisNew, Ping, Sleep 2, Ping, RedisNew, Ping, Sleep 4,
          Ping, RedisNew, Ping, Sleep 6, Ping, RedisNew, Ping, Sleep 8,
          Ping, RedisNew, Ping, Close],
         connected_scaler\<lparr>consecutive_errors := 5, running := False, redis_client := False\<rparr>)"
proof -
  have start: "connected_scaler\<lparr>consecutive_errors := 0\<rparr> = connected_scaler"
    by (simp add: connected_scaler_def)
  have run: "running (connected_scaler\<lparr>consecutive_errors := n\<rparr>)" for n
    by (simp add: connected_scaler_def)
  have stop: "while_running default_config ws
      (connected_scaler\<lparr>consecutive_errors := 5, running := False\<rparr>) =
      Some ([Close],
        connected_scaler\<lparr>consecutive_errors := 5, running := False, redis_client := False\<rparr>)"
    by (simp add: while_running_stopped shutdown_def disconnect_def connected_scaler_def)
  have "while_running default_config
     (redis_down_world # redis_down_world # redis_down_world # redis_down_world
        # redis_down_world # ws) (connected_scaler\<lparr>consecutive_errors := 0\<rparr>) =
   Some ([Ping, RedisNew, Ping, Sleep 2, Ping, RedisNew, Ping, Sleep 4,
          Ping, RedisNew, Ping, Sleep 6, Ping, RedisNew, Ping, Sleep 8,
          Ping, RedisNew, Ping, Close],
         connected_scaler\<lparr>consecutive_errors := 5, running := False, redis_client := False\<rparr>)"
    by (simp add: run redis_down_iteration stop)
  then show ?thesis by (simp add: scaling_loop_def)
qed


section \<open>Durations that Python does not accept\<close>

text \<open>
  A cooldown period of \<open>2 ^ 1024\<close> seconds passes the validator. Every
  iteration is then in the cooldown, line 121 raises, and the iteration
  counts an error and backs off.
\<close>

lemma huge_cooldown_iteration:
  "iteration (default_config\<lparr>timing := \<lparr>polling_interval = 30, cooldown_period = 2 ^ 1024\<rparr>\<rparr>)
     busy_world connected_scaler =
   ([Sleep 2], connected_scaler\<lparr>consecutive_errors := 1\<rparr>)"
proof -
  have "(1000::real) < real_of_int (2 ^ 1024)" by simp
  then show ?thesis
    by (simp add: iteration_def cooldown_body count_error_eq int_to_float_overflows_def
        default_config_def busy_world_def connected_scaler_def)
qed

text \<open>
  A polling interval of 9223372037 seconds passes the validator too. The
  sleep that ends a cycle raises after the counter was reset, so the cycle
  ends with one error counted and a backoff of 2 seconds, here after a
  scaling that succeeded.
\<close>

lemma huge_polling_iteration:
  "iteration
     (default_config\<lparr>timing := \<lparr>polling_interval = 9223372037, cooldown_period = 120\<rparr>\<rparr>)
     busy_world (connected_scaler\<lparr>consecutive_errors := 3\<rparr>) =
   ([Ping, LLen ''bull:jobs:wait'', ContainersList, Log ''Scaling decision made'',
     SubprocessRun (scale_command (docker default_config) 3),
     Log ''Scaling completed successfully'', Sleep 2],
    connected_scaler\<lparr>last_scale_time := 1000, consecutive_errors := 1\<rparr>)"
  by (simp add: iteration_def loop_body_def try_block_def except_clause_def default_config_def
      busy_world_def connected_scaler_def is_connected_def
      measure_and_scale_def end_of_cycle_def time_sleep_def count_error_eq
      get_queue_length_def key_patterns_def get_queue_key_def redis_llen_def
      get_current_replicas_def make_scaling_decision_def execute_scaling_def
      scale_service_def)

end
